theory Spec2Isabelle
  imports Complex_Main "HOL-Library.Log_Nat" "HOL-Library.Multiset" "HOL-Library.Sublist"
begin

section \<open>Python floats\<close>

text \<open>
  The scores, priorities and impacts of \<^verbatim>\<open>ace_framework.py\<close> are Python floats, that is
  IEEE 754 binary64 numbers, and \<^verbatim>\<open>+\<close>, \<^verbatim>\<open>-\<close> and \<^verbatim>\<open>*\<close> round their exact result to the
  nearest such number, ties going to the even significand. A finite binary64 number is a
  dyadic rational, so a float is modelled as a \<^typ>\<open>rat\<close> and each operation as the exact
  operation followed by the rounding \<open>fl64\<close>:
  \<^item> the spacing of the binary64 numbers around \<open>x\<close> is \<open>2 powi (e - 52)\<close> where
    \<open>2 powi e \<le> \<bar>x\<bar> < 2 powi (e + 1)\<close>, and \<open>2 powi (- 1074)\<close> below the smallest normal
    number \<open>2 powi (- 1022)\<close>;
  \<^item> a result that rounds to \<open>2 powi 1024\<close> or beyond is an infinity in IEEE 754. The model
    writes \<open>overflow_threshold\<close> and its negation for the two infinities: they compare with
    every finite number as the infinities do. The code below only ever compares such a
    result (\<^verbatim>\<open>min\<close>, \<^verbatim>\<open>max\<close>, the sort key) and never computes with it, as long as scores,
    priorities and impacts are finite numbers and impacts are not negative.
  NaN and the sign of zero are not modelled.
\<close>

type_synonym pyfloat = rat

definition round_half_even :: "rat \<Rightarrow> int" where
  "round_half_even x =
     (let f = \<lfloor>x\<rfloor>; d = x - of_int f
      in if d < 1 / 2 then f
         else if 1 / 2 < d then f + 1
         else if even f then f else f + 1)"

text \<open>\<open>ilog2 y\<close> is the binary exponent \<open>\<lfloor>log\<^sub>2 y\<rfloor>\<close> of a positive rational, computed from
  the bit lengths of its numerator and denominator.\<close>

definition ilog2 :: "rat \<Rightarrow> int" where
  "ilog2 y =
     (case quotient_of y of (p, q) \<Rightarrow>
        let d = bitlen p - bitlen q
        in if 2 powi d \<le> y then d else d - 1)"

definition overflow_threshold :: rat where
  "overflow_threshold = 2 powi 1024"

definition quantum :: "rat \<Rightarrow> rat" where
  "quantum x = 2 powi (max (ilog2 \<bar>x\<bar>) (- 1022) - 52)"

definition fl64 :: "rat \<Rightarrow> pyfloat" where
  "fl64 x =
     (if x = 0 then 0
      else let e = ilog2 \<bar>x\<bar>;
               n = round_half_even (x / quantum x)
           in if 1024 \<le> e \<or> (e = 1023 \<and> \<bar>n\<bar> = 2 ^ 53) then sgn x * overflow_threshold
              else quantum x * of_int n)"

text \<open>A finite binary64 number is a fixed point of the rounding below the overflow threshold.\<close>

definition is_double :: "rat \<Rightarrow> bool" where
  "is_double x \<longleftrightarrow> fl64 x = x \<and> \<bar>x\<bar> < overflow_threshold"

text \<open>Two devices of the proofs about \<open>fl64\<close>: the rounding with an unbounded exponent, and
  the clipping at the overflow threshold. \<open>fl64\<close> is their composition (lemma \<open>fl64_sat\<close>).\<close>

definition rnd :: "rat \<Rightarrow> rat" where
  "rnd x = quantum x * of_int (round_half_even (x / quantum x))"

definition sat :: "rat \<Rightarrow> rat" where
  "sat r = max (- overflow_threshold) (min overflow_threshold r)"

text \<open>Python's two-argument \<^verbatim>\<open>min(a, b)\<close> and \<^verbatim>\<open>max(a, b)\<close> keep the first argument unless
  the second is strictly smaller (larger).\<close>

definition py_min :: "pyfloat \<Rightarrow> pyfloat \<Rightarrow> pyfloat" where
  "py_min a b = (if b < a then b else a)"

definition py_max :: "pyfloat \<Rightarrow> pyfloat \<Rightarrow> pyfloat" where
  "py_max a b = (if a < b then b else a)"

section \<open>The clock\<close>

text \<open>
  \<^verbatim>\<open>datetime.now().isoformat()\<close> reads the wall clock. A run of the program sees a sequence of
  readings: \<open>clk n\<close> is the \<open>n\<close>-th one, and every function that reads the clock takes the
  number \<open>t\<close> of readings made so far and returns the new count with its result.
\<close>

type_synonym clock = "nat \<Rightarrow> string"

section \<open>Context items\<close>

text \<open>The dataclass \<^verbatim>\<open>ContextItem\<close>. Its field \<^verbatim>\<open>id\<close> is called \<open>item_id\<close> here. A list
  of items stands for a Python list of distinct objects: every item the repository puts
  into a context is a freshly constructed one.\<close>

record ContextItem =
  item_id :: string
  content :: string
  category :: string
  priority :: pyfloat
  created_at :: string
  updated_at :: string
  usage_count :: int
  effectiveness_score :: pyfloat
  metadata :: "(string \<times> string) list"

text \<open>
  The constructor as the code calls it, with \<^verbatim>\<open>id\<close>, \<^verbatim>\<open>content\<close>, \<^verbatim>\<open>category\<close> and
  \<^verbatim>\<open>priority\<close> given: the default factories of \<^verbatim>\<open>created_at\<close> and \<^verbatim>\<open>updated_at\<close> read the clock
  one after the other, the score defaults to \<^verbatim>\<open>0.5\<close>.
\<close>

definition new_ContextItem ::
  "clock \<Rightarrow> string \<Rightarrow> string \<Rightarrow> string \<Rightarrow> pyfloat \<Rightarrow> nat \<Rightarrow> ContextItem \<times> nat" where
  "new_ContextItem clk i c cat p t =
     (\<lparr>item_id = i, content = c, category = cat, priority = p,
       created_at = clk t, updated_at = clk (Suc t), usage_count = 0,
       effectiveness_score = 1 / 2, metadata = []\<rparr>, Suc (Suc t))"

text \<open>
  \<^verbatim>\<open>
  def update_effectiveness(self, success: bool, impact: float = 1.0):
      if success:
          self.effectiveness_score = min(1.0, self.effectiveness_score + impact * 0.1)
      else:
          self.effectiveness_score = max(0.0, self.effectiveness_score - impact * 0.05)
      self.updated_at = datetime.now().isoformat()
  \<close>
  The literals \<^verbatim>\<open>0.1\<close> and \<^verbatim>\<open>0.05\<close> are the binary64 numbers nearest to one tenth and one
  twentieth. The impact is always an argument here; every call in the repository passes it.
\<close>

definition update_effectiveness ::
  "clock \<Rightarrow> bool \<Rightarrow> pyfloat \<Rightarrow> ContextItem \<Rightarrow> nat \<Rightarrow> ContextItem \<times> nat" where
  "update_effectiveness clk success impact item t =
     (let score =
        (if success
         then py_min 1 (fl64 (effectiveness_score item + fl64 (impact * fl64 (1 / 10))))
         else py_max 0 (fl64 (effectiveness_score item - fl64 (impact * fl64 (1 / 20)))))
      in (item\<lparr>effectiveness_score := score, updated_at := clk t\<rparr>, Suc t))"

section \<open>Reflections and the curator\<close>

text \<open>The dataclass \<^verbatim>\<open>ReflectionResult\<close>; a dictionary is an association list.\<close>

record ReflectionResult =
  insights :: "string list"
  patterns :: "(string \<times> string) list list"
  failures :: "(string \<times> string) list list"
  recommendations :: "string list"
  context_gaps :: "string list"

text \<open>\<^verbatim>\<open>str(n)\<close> of a natural number, as the f-strings of the ids format it.\<close>

fun str_nat :: "nat \<Rightarrow> string" where
  "str_nat n =
     (if n < 10 then [''0123456789'' ! n]
      else str_nat (n div 10) @ [''0123456789'' ! (n mod 10)])"

declare str_nat.simps [simp del]

text \<open>
  \<^verbatim>\<open>DeepSeekCurator.curate\<close>:
  \<^verbatim>\<open>
  for i, insight in enumerate(new_insights):
      new_item = ContextItem(
          id=f"insight_{len(current_context)}_{i}",
          content=insight, category="insight", priority=0.8)
      current_context.append(new_item)
  for i, rec in enumerate(reflections.recommendations):
      strategy_item = ContextItem(
          id=f"strategy_{len(current_context)}_{i}",
          content=rec, category="strategy", priority=0.7)
      current_context.append(strategy_item)
  if reflections.failures:
      for context_item in current_context:
          context_item.update_effectiveness(success=False, impact=0.5)
  return current_context
  \<close>
  The two appending loops are \<open>add_insights\<close> and \<open>add_strategies\<close>, with the index \<open>i\<close> of
  \<^verbatim>\<open>enumerate\<close> as an argument; the length in the id is read anew in every round. The loop
  of updates is \<open>update_all_failed\<close>.
\<close>

fun add_insights ::
  "clock \<Rightarrow> nat \<Rightarrow> string list \<Rightarrow> ContextItem list \<Rightarrow> nat \<Rightarrow> ContextItem list \<times> nat" where
  "add_insights clk i [] current_context t = (current_context, t)"
| "add_insights clk i (insight # rest) current_context t =
     (case new_ContextItem clk
             (''insight_'' @ str_nat (length current_context) @ ''_'' @ str_nat i)
             insight ''insight'' (fl64 (4 / 5)) t of
        (new_item, t') \<Rightarrow> add_insights clk (Suc i) rest (current_context @ [new_item]) t')"

fun add_strategies ::
  "clock \<Rightarrow> nat \<Rightarrow> string list \<Rightarrow> ContextItem list \<Rightarrow> nat \<Rightarrow> ContextItem list \<times> nat" where
  "add_strategies clk i [] current_context t = (current_context, t)"
| "add_strategies clk i (rec # rest) current_context t =
     (case new_ContextItem clk
             (''strategy_'' @ str_nat (length current_context) @ ''_'' @ str_nat i)
             rec ''strategy'' (fl64 (7 / 10)) t of
        (strategy_item, t') \<Rightarrow>
          add_strategies clk (Suc i) rest (current_context @ [strategy_item]) t')"

fun update_all_failed :: "clock \<Rightarrow> ContextItem list \<Rightarrow> nat \<Rightarrow> ContextItem list \<times> nat" where
  "update_all_failed clk [] t = ([], t)"
| "update_all_failed clk (context_item # rest) t =
     (case update_effectiveness clk False (1 / 2) context_item t of
        (item', t') \<Rightarrow>
          (case update_all_failed clk rest t' of
             (rest', t'') \<Rightarrow> (item' # rest', t'')))"

definition curate ::
  "clock \<Rightarrow> ContextItem list \<Rightarrow> string list \<Rightarrow> ReflectionResult \<Rightarrow> nat
     \<Rightarrow> ContextItem list \<times> nat" where
  "curate clk current_context new_insights reflections t =
     (case add_insights clk 0 new_insights current_context t of
        (with_insights, t1) \<Rightarrow>
          (case add_strategies clk 0 (recommendations reflections) with_insights t1 of
             (with_strategies, t2) \<Rightarrow>
               if failures reflections \<noteq> [] then update_all_failed clk with_strategies t2
               else (with_strategies, t2)))"

section \<open>The framework\<close>

text \<open>
  The state of \<^verbatim>\<open>ACEFramework\<close>; the field \<^verbatim>\<open>context\<close> is called \<open>context_items\<close> here.
  Its generator, reflector and curator are objects of abstract
  classes; the curator, the only one the operations below call, is an argument of
  \<open>curate_context\<close>. \<^verbatim>\<open>refinement_threshold\<close> is set to \<^verbatim>\<open>0.3\<close> by the constructor and
  never read.
\<close>

record ACEFramework =
  context_items :: "ContextItem list"
  execution_history :: "(string \<times> string) list list"
  refinement_threshold :: pyfloat

type_synonym curator =
  "clock \<Rightarrow> ContextItem list \<Rightarrow> string list \<Rightarrow> ReflectionResult \<Rightarrow> nat \<Rightarrow> ContextItem list \<times> nat"

definition new_ACEFramework :: ACEFramework where
  "new_ACEFramework =
     \<lparr>context_items = [], execution_history = [], refinement_threshold = fl64 (3 / 10)\<rparr>"

definition add_context_item :: "ContextItem \<Rightarrow> ACEFramework \<Rightarrow> ACEFramework" where
  "add_context_item item ace = ace\<lparr>context_items := context_items ace @ [item]\<rparr>"

text \<open>
  \<^verbatim>\<open>refine_context\<close>:
  \<^verbatim>\<open>
  sorted_context = sorted(self.context,
      key=lambda x: x.effectiveness_score * x.priority, reverse=True)
  keep_count = max(10, len(sorted_context) // 2)
  self.context = sorted_context[:keep_count]
  \<close>
  Python's \<^verbatim>\<open>sorted\<close> is stable, also with \<^verbatim>\<open>reverse=True\<close>: the result is in descending
  order of the key and items of equal key keep their order. A list has one such
  arrangement, and the stable insertion sort \<^const>\<open>sort_key\<close> on the negated key computes
  it (negation is exact on floats).
\<close>

definition refinement_key :: "ContextItem \<Rightarrow> pyfloat" where
  "refinement_key x = fl64 (effectiveness_score x * priority x)"

definition py_sorted_reverse :: "('a \<Rightarrow> pyfloat) \<Rightarrow> 'a list \<Rightarrow> 'a list" where
  "py_sorted_reverse key xs = sort_key (\<lambda>x. - key x) xs"

definition sorted_context :: "ACEFramework \<Rightarrow> ContextItem list" where
  "sorted_context ace = py_sorted_reverse refinement_key (context_items ace)"

definition keep_count :: "ACEFramework \<Rightarrow> nat" where
  "keep_count ace = max 10 (length (sorted_context ace) div 2)"

definition refine_context :: "ACEFramework \<Rightarrow> ACEFramework" where
  "refine_context ace = ace\<lparr>context_items := take (keep_count ace) (sorted_context ace)\<rparr>"

text \<open>
  \<^verbatim>\<open>curate_context\<close>:
  \<^verbatim>\<open>
  new_insights = [ContextItem(id=f"insight_{len(self.context)}_{i}", content=insight,
                              category="insight", priority=0.8)
                  for i, insight in enumerate(reflections.insights)]
  self.context = self.curator.curate(self.context, reflections.insights, reflections)
  if len(self.context) > 20:
      self.refine_context()
  return self.context
  \<close>
  The list \<^verbatim>\<open>new_insights\<close> is built and never used; building it reads the clock twice for
  each insight. The result is the returned list, the new state and the new count of clock
  readings.
\<close>

fun new_insights_list ::
  "clock \<Rightarrow> nat \<Rightarrow> nat \<Rightarrow> string list \<Rightarrow> nat \<Rightarrow> ContextItem list \<times> nat" where
  "new_insights_list clk n i [] t = ([], t)"
| "new_insights_list clk n i (insight # rest) t =
     (case new_ContextItem clk (''insight_'' @ str_nat n @ ''_'' @ str_nat i)
             insight ''insight'' (fl64 (4 / 5)) t of
        (item, t') \<Rightarrow>
          (case new_insights_list clk n (Suc i) rest t' of
             (items, t'') \<Rightarrow> (item # items, t'')))"

definition curate_context ::
  "curator \<Rightarrow> clock \<Rightarrow> ReflectionResult \<Rightarrow> ACEFramework \<Rightarrow> nat
     \<Rightarrow> (ContextItem list \<times> ACEFramework) \<times> nat" where
  "curate_context cur clk reflections ace t =
     (case new_insights_list clk (length (context_items ace)) 0 (insights reflections) t of
        (new_insights, t0) \<Rightarrow>
          (case cur clk (context_items ace) (insights reflections) reflections t0 of
             (curated, t1) \<Rightarrow>
               (let ace1 = ace\<lparr>context_items := curated\<rparr>;
                    ace2 = (if 20 < length (context_items ace1) then refine_context ace1 else ace1)
                in ((context_items ace2, ace2), t1))))"

text \<open>A run of the framework with the DeepSeek curator: one \<^verbatim>\<open>curate_context\<close> call for each
  reflection, in order.\<close>

fun curate_all :: "clock \<Rightarrow> ReflectionResult list \<Rightarrow> ACEFramework \<Rightarrow> nat \<Rightarrow> ACEFramework \<times> nat" where
  "curate_all clk [] ace t = (ace, t)"
| "curate_all clk (reflections # rest) ace t =
     (case curate_context curate clk reflections ace t of
        ((returned, ace'), t') \<Rightarrow> curate_all clk rest ace' t')"

text \<open>
  The items that one appending loop of \<open>curate\<close> adds, in closed form: the \<open>k\<close>-th text gets
  the id \<open>pre\<close>, length of the list so far, \<open>_\<close>, index, and the next two clock readings
  (lemmas \<open>add_insights_eq\<close> and \<open>add_strategies_eq\<close>).
\<close>

fun items_from ::
  "string \<Rightarrow> string \<Rightarrow> pyfloat \<Rightarrow> clock \<Rightarrow> nat \<Rightarrow> nat \<Rightarrow> nat \<Rightarrow> string list \<Rightarrow> ContextItem list" where
  "items_from pre cat p clk n i t [] = []"
| "items_from pre cat p clk n i t (x # xs) =
     fst (new_ContextItem clk (pre @ str_nat n @ ''_'' @ str_nat i) x cat p t)
       # items_from pre cat p clk (Suc n) (Suc i) (Suc (Suc t)) xs"


text \<open>Inputs used in the examples below.\<close>

definition failing_reflection :: ReflectionResult where
  "failing_reflection =
     \<lparr>insights = [''Test insight''], patterns = [],
      failures = [[(''failure'', ''Ignored injury'')]],
      recommendations = [''Test recommendation''], context_gaps = []\<rparr>"

definition quiet_reflection :: ReflectionResult where
  "quiet_reflection = failing_reflection\<lparr>failures := []\<rparr>"

definition strategies_reflection :: ReflectionResult where
  "strategies_reflection =
     \<lparr>insights = [], patterns = [], failures = [],
      recommendations = map (\<lambda>k. ''Recommendation '' @ str_nat k) [0..<10],
      context_gaps = []\<rparr>"

definition insights_reflection :: ReflectionResult where
  "insights_reflection =
     \<lparr>insights = map (\<lambda>k. ''Insight '' @ str_nat k) [0..<11], patterns = [], failures = [],
      recommendations = [], context_gaps = []\<rparr>"

definition single_reflection :: ReflectionResult where
  "single_reflection =
     \<lparr>insights = [''One more insight''], patterns = [], failures = [],
      recommendations = [], context_gaps = []\<rparr>"

definition sample_clock :: clock where
  "sample_clock n = ''2024-01-02T00:00:00.00000'' @ [''0123456789'' ! (n mod 10)]"

definition sample_item :: ContextItem where
  "sample_item =
     \<lparr>item_id = ''test_2'', content = ''Test pattern'', category = ''pattern'',
      priority = 1, created_at = ''2024-01-01T00:00:00.000000'',
      updated_at = ''2024-01-01T00:00:00.000001'', usage_count = 0,
      effectiveness_score = 1 / 2, metadata = []\<rparr>"

definition saturated_item :: ContextItem where
  "saturated_item = sample_item\<lparr>effectiveness_score := 1\<rparr>"


definition framework_of :: "ContextItem list \<Rightarrow> ACEFramework" where
  "framework_of items = new_ACEFramework\<lparr>context_items := items\<rparr>"

section \<open>Facts about the rounding\<close>

subsection \<open>powers of two\<close>

lemma two_powi_mono: "a \<le> b \<Longrightarrow> (2::rat) powi a \<le> 2 powi b"
  by (rule power_int_increasing) simp_all

lemma two_powi_strict_mono: "a < b \<Longrightarrow> (2::rat) powi a < 2 powi b"
  by (rule power_int_strict_increasing) simp_all

lemma two_powi_less_cancel: "(2::rat) powi a < 2 powi b \<Longrightarrow> a < b"
  using two_powi_mono [of b a] by (cases "a < b") auto

lemma two_powi_multiple:
  assumes "a \<le> b"
  shows "(2::rat) powi b = 2 powi a * of_int (2 ^ nat (b - a))"
proof -
  have "(2::rat) powi b = 2 powi (a + (b - a))" by simp
  also have "\<dots> = 2 powi a * 2 powi (b - a)"
    by (rule power_int_add) simp
  also have "(2::rat) powi (b - a) = of_int (2 ^ nat (b - a))"
    using assms by (simp add: power_int_nonneg_exp)
  finally show ?thesis .
qed

subsection \<open>ilog2\<close>

lemma bitlen_rat_bounds:
  assumes "0 < p"
  shows "(2::rat) powi (bitlen p - 1) \<le> of_int p" and "of_int p < (2::rat) powi (bitlen p)"
proof -
  from bitlen_bounds [OF assms]
  have lo: "2 ^ nat (bitlen p - 1) \<le> p" and hi: "p < 2 ^ nat (bitlen p)" by auto
  have b1: "1 \<le> bitlen p"
    using assms by (simp add: bitlen_alt_def)
  have "(2::rat) powi (bitlen p - 1) = of_int (2 ^ nat (bitlen p - 1))"
    using b1 by (simp add: power_int_nonneg_exp)
  also have "\<dots> \<le> of_int p"
    using lo by (simp only: of_int_le_iff)
  finally show "(2::rat) powi (bitlen p - 1) \<le> of_int p" .
  have "(of_int p :: rat) < of_int (2 ^ nat (bitlen p))"
    using hi by (simp only: of_int_less_iff)
  also have "\<dots> = (2::rat) powi (bitlen p)"
    using b1 by (simp add: power_int_nonneg_exp)
  finally show "of_int p < (2::rat) powi (bitlen p)" .
qed

lemma ilog2_bounds:
  assumes "0 < y"
  shows "2 powi (ilog2 y) \<le> y" and "y < 2 powi (ilog2 y + 1)"
proof -
  obtain p q where pq: "quotient_of y = (p, q)" by force
  have q: "0 < q" using quotient_of_denom_pos [OF pq] .
  have y: "y = of_int p / of_int q" using quotient_of_div [OF pq] .
  have p: "0 < p" using assms q by (simp add: y zero_less_divide_iff)
  let ?d = "bitlen p - bitlen q"
  note P = bitlen_rat_bounds [OF p] and Q = bitlen_rat_bounds [OF q]
  have qpos: "(0::rat) < of_int q" using q by simp
  have "y < 2 powi (bitlen p) / 2 powi (bitlen q - 1)"
    unfolding y using P(2) Q(1) p
    by (intro frac_less) simp_all
  also have "\<dots> = 2 powi (?d + 1)"
    by (simp flip: power_int_diff add: algebra_simps)
  finally have up: "y < 2 powi (?d + 1)" .
  have "(2::rat) powi (?d - 1) = 2 powi (bitlen p - 1) / 2 powi (bitlen q)"
    by (simp flip: power_int_diff add: algebra_simps)
  also have "\<dots> \<le> y"
    unfolding y using P(1) Q(2) qpos p
    by (intro frac_le) simp_all
  finally have lo: "2 powi (?d - 1) \<le> y" .
  have il: "ilog2 y = (if 2 powi ?d \<le> y then ?d else ?d - 1)"
    by (simp add: ilog2_def pq Let_def)
  show "2 powi (ilog2 y) \<le> y"
    using lo by (simp add: il)
  show "y < 2 powi (ilog2 y + 1)"
    using up by (auto simp add: il not_le)
qed

lemma ilog2_unique:
  assumes "2 powi e \<le> y" and "y < 2 powi (e + 1)"
  shows "ilog2 y = e"
proof -
  have "0 < y" using assms(1) by (rule less_le_trans [rotated]) simp
  note B = ilog2_bounds [OF this]
  have "2 powi e < (2::rat) powi (ilog2 y + 1)" using assms(1) B(2) by simp
  then have "e < ilog2 y + 1" by (rule two_powi_less_cancel)
  moreover have "2 powi (ilog2 y) < (2::rat) powi (e + 1)" using assms(2) B(1) by simp
  then have "ilog2 y < e + 1" by (rule two_powi_less_cancel)
  ultimately show ?thesis by simp
qed

lemma ilog2_mono:
  assumes "0 < x" and "x \<le> y"
  shows "ilog2 x \<le> ilog2 y"
proof -
  have "0 < y" using assms by simp
  have "2 powi (ilog2 x) \<le> x" using ilog2_bounds(1) [OF assms(1)] .
  also have "x \<le> y" by fact
  also have "y < 2 powi (ilog2 y + 1)" using ilog2_bounds(2) [OF \<open>0 < y\<close>] .
  finally have "ilog2 x < ilog2 y + 1" by (rule two_powi_less_cancel)
  then show ?thesis by simp
qed

subsection \<open>round half even\<close>

lemma round_half_even_cases:
  "round_half_even x = \<lfloor>x\<rfloor> \<or> round_half_even x = \<lfloor>x\<rfloor> + 1"
  by (simp add: round_half_even_def Let_def)

lemma round_half_even_of_int [simp]: "round_half_even (of_int n) = n"
  by (simp add: round_half_even_def)

lemma round_half_even_mono:
  assumes "x \<le> y"
  shows "round_half_even x \<le> round_half_even y"
proof (cases "\<lfloor>x\<rfloor> = \<lfloor>y\<rfloor>")
  case True
  with assms show ?thesis
    by (auto simp add: round_half_even_def Let_def)
next
  case False
  with assms have "\<lfloor>x\<rfloor> + 1 \<le> \<lfloor>y\<rfloor>"
    using floor_mono [OF assms] by simp
  moreover have "round_half_even x \<le> \<lfloor>x\<rfloor> + 1"
    using round_half_even_cases [of x] by auto
  moreover have "\<lfloor>y\<rfloor> \<le> round_half_even y"
    using round_half_even_cases [of y] by auto
  ultimately show ?thesis by simp
qed

lemma round_half_even_minus: "round_half_even (- x) = - round_half_even x"
proof (cases "x \<in> \<int>")
  case True
  then obtain n where "x = of_int n" by (auto elim: Ints_cases)
  then show ?thesis
    by (simp flip: of_int_minus)
next
  case False
  then have "x \<noteq> of_int \<lfloor>x\<rfloor>"
    by (metis Ints_of_int)
  then have f: "\<lfloor>- x\<rfloor> = - \<lfloor>x\<rfloor> - 1"
    by (simp add: floor_minus ceiling_altdef)
  show ?thesis
    unfolding round_half_even_def Let_def f
    by (auto simp add: algebra_simps)
qed


subsection \<open>rounding without overflow\<close>

lemma quantum_pos: "0 < quantum x"
  by (simp add: quantum_def)

lemma quantum_minus: "quantum (- x) = quantum x"
  by (simp add: quantum_def)

lemma rnd_zero: "rnd 0 = 0"
  by (simp add: rnd_def round_half_even_def)

lemma rnd_minus: "rnd (- x) = - rnd x"
  by (simp add: rnd_def quantum_minus round_half_even_minus)

lemma rnd_grid_le:
  assumes "quantum x * of_int m \<le> x"
  shows "quantum x * of_int m \<le> rnd x"
proof -
  have "of_int m \<le> x / quantum x"
    using assms quantum_pos [of x] by (simp add: pos_le_divide_eq mult.commute)
  then have "round_half_even (of_int m) \<le> round_half_even (x / quantum x)"
    by (rule round_half_even_mono)
  then have "m \<le> round_half_even (x / quantum x)" by simp
  then have "(of_int m :: rat) \<le> of_int (round_half_even (x / quantum x))"
    by (simp only: of_int_le_iff)
  then show ?thesis
    unfolding rnd_def using quantum_pos [of x] by (simp only: mult_le_cancel_left_pos)
qed

lemma rnd_grid_ge:
  assumes "x \<le> quantum x * of_int m"
  shows "rnd x \<le> quantum x * of_int m"
proof -
  have "x / quantum x \<le> of_int m"
    using assms quantum_pos [of x] by (simp add: pos_divide_le_eq mult.commute)
  then have "round_half_even (x / quantum x) \<le> round_half_even (of_int m)"
    by (rule round_half_even_mono)
  then have "round_half_even (x / quantum x) \<le> m" by simp
  then have "(of_int (round_half_even (x / quantum x)) :: rat) \<le> of_int m"
    by (simp only: of_int_le_iff)
  then show ?thesis
    unfolding rnd_def using quantum_pos [of x] by (simp only: mult_le_cancel_left_pos)
qed

lemma two_powi_on_grid:
  assumes "max (ilog2 \<bar>x\<bar>) (- 1022) - 52 \<le> b"
  shows "2 powi b = quantum x * of_int (2 ^ nat (b - (max (ilog2 \<bar>x\<bar>) (- 1022) - 52)))"
  unfolding quantum_def using assms by (rule two_powi_multiple)

lemma rnd_le_two_powi:
  assumes "x \<le> 2 powi b" and "max (ilog2 \<bar>x\<bar>) (- 1022) - 52 \<le> b"
  shows "rnd x \<le> 2 powi b"
  using rnd_grid_ge [of x "2 ^ nat (b - (max (ilog2 \<bar>x\<bar>) (- 1022) - 52))"]
    assms(1) two_powi_on_grid [OF assms(2)] by simp

lemma rnd_ge_two_powi:
  assumes "2 powi b \<le> x" and "max (ilog2 \<bar>x\<bar>) (- 1022) - 52 \<le> b"
  shows "2 powi b \<le> rnd x"
  using rnd_grid_le [of x "2 ^ nat (b - (max (ilog2 \<bar>x\<bar>) (- 1022) - 52))"]
    assms(1) two_powi_on_grid [OF assms(2)] by simp

lemma rnd_nonneg:
  assumes "0 \<le> x"
  shows "0 \<le> rnd x"
  using rnd_grid_le [of x 0] assms by simp

lemma rnd_mono_pos:
  assumes "0 < x" and "x \<le> y"
  shows "rnd x \<le> rnd y"
proof -
  have ypos: "0 < y" using assms by simp
  let ?kx = "max (ilog2 \<bar>x\<bar>) (- 1022)" and ?ky = "max (ilog2 \<bar>y\<bar>) (- 1022)"
  have e: "ilog2 \<bar>x\<bar> \<le> ilog2 \<bar>y\<bar>"
    using ilog2_mono [OF assms] assms by simp
  show ?thesis
  proof (cases "?kx = ?ky")
    case True
    then have q: "quantum x = quantum y" by (simp add: quantum_def)
    have "x / quantum y \<le> y / quantum y"
      using assms(2) quantum_pos [of y] by (simp add: divide_right_mono)
    then have "round_half_even (x / quantum y) \<le> round_half_even (y / quantum y)"
      by (rule round_half_even_mono)
    then have "(of_int (round_half_even (x / quantum y)) :: rat)
        \<le> of_int (round_half_even (y / quantum y))"
      by (simp only: of_int_le_iff)
    then show ?thesis
      unfolding rnd_def q using quantum_pos [of y] by (simp only: mult_le_cancel_left_pos)
  next
    case False
    with e have lt: "ilog2 \<bar>x\<bar> < ilog2 \<bar>y\<bar>" and ky: "?ky = ilog2 \<bar>y\<bar>" and kx: "?kx \<le> ilog2 \<bar>y\<bar>"
      by auto
    let ?g = "(2::rat) powi (ilog2 \<bar>y\<bar>)"
    have "x < 2 powi (ilog2 \<bar>x\<bar> + 1)"
      using ilog2_bounds(2) [of x] assms(1) by simp
    also have "\<dots> \<le> ?g"
      using lt by (intro two_powi_mono) simp
    finally have "x \<le> ?g" by simp
    moreover have "?kx - 52 \<le> ilog2 \<bar>y\<bar>"
      using kx by linarith
    ultimately have "rnd x \<le> ?g"
      by (rule rnd_le_two_powi)
    also have "?g \<le> rnd y"
    proof (rule rnd_ge_two_powi)
      show "?g \<le> y" using ilog2_bounds(1) [of y] ypos by simp
      show "?ky - 52 \<le> ilog2 \<bar>y\<bar>" using ky by linarith
    qed
    finally show ?thesis .
  qed
qed

lemma rnd_mono:
  assumes "x \<le> y"
  shows "rnd x \<le> rnd y"
proof -
  consider "0 < x" | "x \<le> 0" "0 \<le> y" | "y < 0" by linarith
  then show ?thesis
  proof cases
    case 1
    then show ?thesis using assms by (rule rnd_mono_pos)
  next
    case 2
    have "rnd x \<le> 0"
      using rnd_nonneg [of "- x"] 2(1) by (simp add: rnd_minus)
    also have "0 \<le> rnd y" using 2(2) by (rule rnd_nonneg)
    finally show ?thesis .
  next
    case 3
    have "rnd (- y) \<le> rnd (- x)"
      using 3 assms by (intro rnd_mono_pos) simp_all
    then show ?thesis by (simp add: rnd_minus)
  qed
qed


subsection \<open>overflow\<close>

lemma overflow_threshold_pos: "0 < overflow_threshold"
  by (simp add: overflow_threshold_def)

lemma overflow_threshold_gt_one: "1 < overflow_threshold"
  unfolding overflow_threshold_def by (rule one_less_power_int) simp_all

lemma sat_mono: "r \<le> s \<Longrightarrow> sat r \<le> sat s"
  using overflow_threshold_pos by (auto simp add: sat_def min_def max_def)

lemma sat_minus: "sat (- r) = - sat r"
  using overflow_threshold_pos by (auto simp add: sat_def min_def max_def)

lemma sat_id: "\<bar>r\<bar> < overflow_threshold \<Longrightarrow> sat r = r"
  by (auto simp add: sat_def min_def max_def abs_if split: if_splits)

lemma sat_finite: "\<bar>sat r\<bar> < overflow_threshold \<Longrightarrow> sat r = r"
  using overflow_threshold_pos by (auto simp add: sat_def min_def max_def abs_if split: if_splits)

lemma sat_overflow: "overflow_threshold \<le> r \<Longrightarrow> sat r = overflow_threshold"
  using overflow_threshold_pos by (auto simp add: sat_def min_def max_def)

lemma rnd_pos_repr:
  assumes "0 < x"
  shows "0 \<le> round_half_even (x / quantum x)"
    and "round_half_even (x / quantum x) \<le> 2 ^ 53"
    and "quantum x * of_int (2 ^ 53) = 2 powi (max (ilog2 \<bar>x\<bar>) (- 1022) + 1)"
proof -
  let ?k = "max (ilog2 \<bar>x\<bar>) (- 1022)"
  have "round_half_even (of_int 0) \<le> round_half_even (x / quantum x)"
    using assms quantum_pos [of x] by (intro round_half_even_mono) simp
  then show "0 \<le> round_half_even (x / quantum x)"
    by (simp only: round_half_even_of_int)
  have g: "2 powi (?k + 1) = quantum x * of_int (2 ^ nat ((?k + 1) - (?k - 52)))"
    by (rule two_powi_on_grid) simp
  have "nat ((?k + 1) - (?k - 52)) = 53" by simp
  with g show g53: "quantum x * of_int (2 ^ 53) = 2 powi (?k + 1)"
    by simp
  have "x < 2 powi (ilog2 \<bar>x\<bar> + 1)"
    using ilog2_bounds(2) [of x] assms by simp
  also have "\<dots> \<le> 2 powi (?k + 1)"
    by (intro two_powi_mono) simp
  finally have "x \<le> quantum x * of_int (2 ^ 53)"
    by (simp only: g53)
  then have "x / quantum x \<le> of_int (2 ^ 53)"
    using quantum_pos [of x] by (simp add: pos_divide_le_eq mult.commute)
  then have "round_half_even (x / quantum x) \<le> round_half_even (of_int (2 ^ 53))"
    by (rule round_half_even_mono)
  then show "round_half_even (x / quantum x) \<le> 2 ^ 53"
    by (simp only: round_half_even_of_int)
qed

lemma fl64_pos_sat:
  assumes "0 < x"
  shows "fl64 x = sat (rnd x)"
proof -
  let ?e = "ilog2 \<bar>x\<bar>"
  let ?k = "max ?e (- 1022)"
  let ?n = "round_half_even (x / quantum x)"
  note R = rnd_pos_repr [OF assms]
  have fl: "fl64 x = (if 1024 \<le> ?e \<or> (?e = 1023 \<and> \<bar>?n\<bar> = 2 ^ 53)
      then overflow_threshold else rnd x)"
    using assms by (simp add: fl64_def Let_def rnd_def)
  have r0: "0 \<le> rnd x" using assms by (intro rnd_nonneg) simp
  have xe: "2 powi ?e \<le> x" and xe': "x < 2 powi (?e + 1)"
    using ilog2_bounds [of x] assms by simp_all
  consider (big) "1024 \<le> ?e" | (edge) "?e = 1023" "?n = 2 ^ 53"
    | (top) "?e = 1023" "?n \<noteq> 2 ^ 53" | (small) "?e < 1023"
    by linarith
  then show ?thesis
  proof cases
    case big
    have "overflow_threshold \<le> 2 powi ?e"
      unfolding overflow_threshold_def using big by (rule two_powi_mono)
    also have "2 powi ?e \<le> rnd x"
      using xe by (rule rnd_ge_two_powi) (use big in linarith)
    finally show ?thesis
      using big by (simp add: fl sat_overflow)
  next
    case edge
    have "rnd x = 2 powi (?k + 1)"
      unfolding rnd_def edge(2) by (rule R(3))
    also have "\<dots> = overflow_threshold"
      by (simp add: edge(1) overflow_threshold_def)
    finally show ?thesis
      using edge by (simp add: fl sat_overflow)
  next
    case top
    have "?n < 2 ^ 53" using top(2) R(2) by simp
    then have "(of_int ?n :: rat) < of_int (2 ^ 53)"
      by (simp only: of_int_less_iff)
    then have "rnd x < quantum x * of_int (2 ^ 53)"
      unfolding rnd_def using quantum_pos [of x] by (simp only: mult_less_cancel_left_pos)
    also have "\<dots> = overflow_threshold"
      by (simp only: R(3)) (simp add: top(1) overflow_threshold_def)
    finally have "rnd x < overflow_threshold" .
    with r0 have "sat (rnd x) = rnd x" by (intro sat_id) simp
    moreover have "\<bar>?n\<bar> \<noteq> 2 ^ 53" using top(2) R(1) by simp
    ultimately show ?thesis
      using top(1) by (simp add: fl)
  next
    case small
    have "x < 2 powi (?e + 1)" by (rule xe')
    also have "\<dots> \<le> 2 powi 1023"
      using small by (intro two_powi_mono) simp
    finally have "x \<le> 2 powi 1023" by simp
    moreover have "?k - 52 \<le> 1023" using small by simp
    ultimately have "rnd x \<le> 2 powi 1023" by (rule rnd_le_two_powi)
    also have "(2::rat) powi 1023 < overflow_threshold"
      unfolding overflow_threshold_def by (rule two_powi_strict_mono) simp
    finally have "rnd x < overflow_threshold" .
    with r0 have "sat (rnd x) = rnd x" by (intro sat_id) simp
    then show ?thesis
      using small by (simp add: fl)
  qed
qed

lemma fl64_zero: "fl64 0 = 0"
  by (simp add: fl64_def)

lemma fl64_minus: "fl64 (- x) = - fl64 x"
  by (simp add: fl64_def Let_def round_half_even_minus quantum_minus)

lemma fl64_sat: "fl64 x = sat (rnd x)"
proof -
  consider "0 < x" | "x = 0" | "0 < - x" by linarith
  then show ?thesis
  proof cases
    case 1
    then show ?thesis by (rule fl64_pos_sat)
  next
    case 2
    then show ?thesis
      using overflow_threshold_pos by (simp add: fl64_zero rnd_zero sat_id)
  next
    case 3
    then have "fl64 (- x) = sat (rnd (- x))" by (rule fl64_pos_sat)
    then show ?thesis by (simp add: fl64_minus rnd_minus sat_minus)
  qed
qed

lemma fl64_mono: "x \<le> y \<Longrightarrow> fl64 x \<le> fl64 y"
  unfolding fl64_sat by (intro sat_mono rnd_mono)

lemma fl64_nonneg: "0 \<le> x \<Longrightarrow> 0 \<le> fl64 x"
  using fl64_mono [of 0 x] by (simp add: fl64_zero)

lemma fl64_nonpos: "x \<le> 0 \<Longrightarrow> fl64 x \<le> 0"
  using fl64_mono [of x 0] by (simp add: fl64_zero)

subsection \<open>rounded values are representable\<close>

lemma rnd_idem_pos:
  assumes "0 < x"
  shows "rnd (rnd x) = rnd x"
proof (cases "rnd x = 0")
  case True
  then show ?thesis by (simp add: rnd_zero)
next
  case False
  let ?k = "max (ilog2 \<bar>x\<bar>) (- 1022)"
  let ?n = "round_half_even (x / quantum x)"
  let ?r = "rnd x"
  let ?kr = "max (ilog2 \<bar>?r\<bar>) (- 1022)"
  note R = rnd_pos_repr [OF assms]
  have rpos: "0 < ?r"
    using False rnd_nonneg [of x] assms by simp
  have "\<exists>m. ?r = quantum ?r * of_int m"
  proof (cases "?kr \<le> ?k")
    case True
    have "quantum x = quantum ?r * of_int (2 ^ nat ((?k - 52) - (?kr - 52)))"
      unfolding quantum_def [of x] using True by (intro two_powi_on_grid) simp
    then have "?r = quantum ?r * of_int (2 ^ nat ((?k - 52) - (?kr - 52)) * ?n)"
      unfolding rnd_def [of x] by simp
    then show ?thesis by blast
  next
    case False
    then have kr: "?kr = ilog2 \<bar>?r\<bar>" and le: "?k + 1 \<le> ilog2 \<bar>?r\<bar>"
      by auto
    have "(of_int ?n :: rat) \<le> of_int (2 ^ 53)"
      using R(2) by (simp only: of_int_le_iff)
    then have "?r \<le> quantum x * of_int (2 ^ 53)"
      unfolding rnd_def [of x] using quantum_pos [of x] by (simp only: mult_le_cancel_left_pos)
    also have "\<dots> = 2 powi (?k + 1)" by (rule R(3))
    also have "\<dots> \<le> 2 powi (ilog2 \<bar>?r\<bar>)" using le by (rule two_powi_mono)
    finally have "?r \<le> 2 powi (ilog2 \<bar>?r\<bar>)" .
    moreover have "2 powi (ilog2 \<bar>?r\<bar>) \<le> ?r"
      using ilog2_bounds(1) [of ?r] rpos by simp
    ultimately have "?r = 2 powi (ilog2 \<bar>?r\<bar>)" by simp
    also have "\<dots> = quantum ?r * of_int (2 ^ nat (ilog2 \<bar>?r\<bar> - (?kr - 52)))"
      using kr by (intro two_powi_on_grid) simp
    finally show ?thesis by blast
  qed
  then obtain m where m: "?r = quantum ?r * of_int m" ..
  have "quantum ?r * of_int m \<le> rnd ?r"
    using m by (intro rnd_grid_le) simp
  moreover have "rnd ?r \<le> quantum ?r * of_int m"
    using m by (intro rnd_grid_ge) simp
  ultimately show ?thesis using m by simp
qed

lemma rnd_idem: "rnd (rnd x) = rnd x"
proof -
  consider "0 < x" | "x = 0" | "0 < - x" by linarith
  then show ?thesis
  proof cases
    case 1
    then show ?thesis by (rule rnd_idem_pos)
  next
    case 2
    then show ?thesis by (simp add: rnd_zero)
  next
    case 3
    then have "rnd (rnd (- x)) = rnd (- x)" by (rule rnd_idem_pos)
    then show ?thesis by (simp add: rnd_minus)
  qed
qed

lemma is_double_fl64:
  assumes "\<bar>fl64 x\<bar> < overflow_threshold"
  shows "is_double (fl64 x)"
proof -
  have "fl64 x = rnd x"
    using assms unfolding fl64_sat by (rule sat_finite)
  then have "fl64 (fl64 x) = sat (rnd x)"
    by (simp add: fl64_sat rnd_idem)
  then show ?thesis
    using assms by (simp add: is_double_def fl64_sat)
qed

subsection \<open>doubling\<close>

text \<open>Doubling a number of the normal range is exact: it commutes with the rounding.\<close>

lemma rnd_twice:
  assumes "2 powi (- 1022) \<le> \<bar>x\<bar>"
  shows "rnd (2 * x) = 2 * rnd x"
proof -
  let ?e = "ilog2 \<bar>x\<bar>"
  have pos: "0 < \<bar>x\<bar>"
    using assms by (rule less_le_trans [rotated]) simp
  note B = ilog2_bounds [OF pos]
  have "(2::rat) powi (- 1022) < 2 powi (?e + 1)"
    using assms B(2) by simp
  then have e: "- 1022 \<le> ?e"
    using two_powi_less_cancel [of "- 1022" "?e + 1"] by simp
  have step: "(2::rat) powi (k + 1) = 2 * 2 powi k" for k
    by (simp add: power_int_add)
  have "ilog2 \<bar>2 * x\<bar> = ?e + 1"
  proof (rule ilog2_unique)
    show "2 powi (?e + 1) \<le> \<bar>2 * x\<bar>"
      using B(1) by (simp add: step abs_mult)
    have "\<bar>2 * x\<bar> = 2 * \<bar>x\<bar>" by (simp add: abs_mult)
    also have "\<dots> < 2 * 2 powi (?e + 1)" using B(2) by simp
    also have "\<dots> = 2 powi (?e + 1 + 1)" by (rule step [symmetric])
    finally show "\<bar>2 * x\<bar> < 2 powi (?e + 1 + 1)" .
  qed
  then have "quantum (2 * x) = 2 powi ((?e - 52) + 1)"
    using e by (simp add: quantum_def max_def algebra_simps)
  also have "\<dots> = 2 * quantum x"
    using e by (simp only: step) (simp add: quantum_def max_def)
  finally have q: "quantum (2 * x) = 2 * quantum x" .
  show ?thesis
    using quantum_pos [of x] by (simp add: rnd_def q)
qed

subsection \<open>evaluated roundings\<close>

lemma py_min_eq: "py_min a b = min a b"
  by (simp add: py_min_def min_def)

lemma py_max_eq: "py_max a b = max a b"
  by (simp add: py_max_def max_def)

lemma fl64_one: "fl64 1 = 1"
  by code_simp

lemma fl64_half: "fl64 (1 / 2) = 1 / 2"
  by code_simp

lemma fl64_tenth: "fl64 (1 / 10) = 3602879701896397 / 36028797018963968"
  by code_simp

lemma fl64_twentieth: "fl64 (1 / 20) = 3602879701896397 / 72057594037927936"
  by code_simp

lemma is_double_zero: "is_double 0"
  using overflow_threshold_pos by (simp add: is_double_def fl64_zero)

lemma is_double_one: "is_double 1"
  using overflow_threshold_gt_one by (simp add: is_double_def fl64_one)

lemma is_double_half: "is_double (1 / 2)"
  using overflow_threshold_gt_one by (simp add: is_double_def fl64_half)

section \<open>The effectiveness update\<close>

lemma score_after_success:
  "effectiveness_score (fst (update_effectiveness clk True i item t)) =
     py_min 1 (fl64 (effectiveness_score item + fl64 (i * fl64 (1 / 10))))"
  by (simp add: update_effectiveness_def)

lemma score_after_failure:
  "effectiveness_score (fst (update_effectiveness clk False i item t)) =
     py_max 0 (fl64 (effectiveness_score item - fl64 (i * fl64 (1 / 20))))"
  by (simp add: update_effectiveness_def)

lemma sample_item_score: "effectiveness_score sample_item = 1 / 2"
  by (simp add: sample_item_def)

lemma fl64_fixes_double_le:
  assumes "is_double s" and "s \<le> y"
  shows "s \<le> fl64 y"
  using fl64_mono [OF assms(2)] assms(1) by (simp add: is_double_def)

lemma fl64_fixes_double_ge:
  assumes "is_double s" and "y \<le> s"
  shows "fl64 y \<le> s"
  using fl64_mono [OF assms(2)] assms(1) by (simp add: is_double_def)

lemma is_double_min_one:
  assumes "0 \<le> fl64 y"
  shows "is_double (min 1 (fl64 y))"
proof (cases "fl64 y < 1")
  case True
  then have "\<bar>fl64 y\<bar> < overflow_threshold"
    using assms overflow_threshold_gt_one by simp
  then have "is_double (fl64 y)" by (rule is_double_fl64)
  with True show ?thesis by (simp add: min_def)
next
  case False
  then show ?thesis by (simp add: min_def is_double_one)
qed

lemma is_double_max_zero:
  assumes "fl64 y \<le> 1"
  shows "is_double (max 0 (fl64 y))"
proof (cases "0 < fl64 y")
  case True
  then have "\<bar>fl64 y\<bar> < overflow_threshold"
    using assms overflow_threshold_gt_one by simp
  then have "is_double (fl64 y)" by (rule is_double_fl64)
  with True show ?thesis by (simp add: max_def)
next
  case False
  then show ?thesis by (simp add: max_def is_double_zero)
qed

lemma success_from_half:
  "py_min 1 (fl64 (1 / 2 + fl64 (1 * fl64 (1 / 10)))) = fl64 (3 / 5)"
  by code_simp

lemma failure_from_three_fifths:
  "py_max 0 (fl64 (fl64 (3 / 5) - fl64 (1 * fl64 (1 / 20)))) = 4953959590107545 / 2 ^ 53"
  by code_simp

lemma below_eleven_twentieths:
  "(4953959590107545 / 2 ^ 53 :: rat) < fl64 (11 / 20)
   \<and> \<bar>4953959590107545 / 2 ^ 53 - 11 / 20 :: rat\<bar> < 1 / 2 ^ 53
   \<and> (4953959590107545 / 2 ^ 53 :: rat) \<noteq> 11 / 20"
  by code_simp

lemma saturated_success: "py_min 1 (fl64 (1 + fl64 (1 * fl64 (1 / 10)))) = 1"
  by code_simp

text \<open>The reward step \<open>i * 0.1\<close> is twice the penalty step \<open>i * 0.05\<close> for every impact whose
  penalty step is in the normal range of the floats (below it, two roundings to multiples
  of \<open>2 powi (- 1074)\<close> need not be in that ratio).\<close>

lemma reward_step_twice_penalty_step:
  assumes "2 powi (- 1022) \<le> i * fl64 (1 / 20)"
    and "fl64 (i * fl64 (1 / 10)) < overflow_threshold"
  shows "fl64 (i * fl64 (1 / 10)) = 2 * fl64 (i * fl64 (1 / 20))"
proof -
  let ?y = "i * fl64 (1 / 20)"
  have y: "0 < ?y"
    using assms(1) by (rule less_le_trans [rotated]) simp
  have twice: "i * fl64 (1 / 10) = 2 * ?y"
    by (simp add: fl64_tenth fl64_twentieth)
  have r: "rnd (2 * ?y) = 2 * rnd ?y"
    using assms(1) y by (intro rnd_twice) simp
  have r0: "0 \<le> rnd ?y"
    using y by (intro rnd_nonneg) simp
  have f2: "fl64 (i * fl64 (1 / 10)) = sat (rnd (2 * ?y))"
    by (simp only: twice fl64_sat [of "2 * ?y"])
  have f1: "fl64 ?y = sat (rnd ?y)"
    by (rule fl64_sat)
  have "0 \<le> fl64 (2 * ?y)"
    using y by (intro fl64_nonneg) simp
  then have "0 \<le> sat (rnd (2 * ?y))"
    by (simp only: fl64_sat [of "2 * ?y"])
  moreover have "sat (rnd (2 * ?y)) < overflow_threshold"
    using assms(2) by (simp only: f2)
  ultimately have fin: "\<bar>sat (rnd (2 * ?y))\<bar> < overflow_threshold"
    by simp
  then have big: "sat (rnd (2 * ?y)) = rnd (2 * ?y)"
    by (rule sat_finite)
  have "\<bar>rnd (2 * ?y)\<bar> < overflow_threshold"
    using fin by (simp only: big)
  then have "2 * rnd ?y < overflow_threshold"
    by (simp add: r)
  then have "\<bar>rnd ?y\<bar> < overflow_threshold"
    using r0 by simp
  then have small: "sat (rnd ?y) = rnd ?y"
    by (rule sat_id)
  have "fl64 (i * fl64 (1 / 10)) = sat (rnd (2 * ?y))" by (rule f2)
  also have "\<dots> = rnd (2 * ?y)" by (rule big)
  also have "\<dots> = 2 * rnd ?y" by (rule r)
  also have "rnd ?y = fl64 ?y" by (simp only: f1 small)
  finally show ?thesis .
qed


text \<open>
  C6. For an item whose score is a float in \<open>[0, 1]\<close> and an impact \<open>i \<ge> 0\<close>: a success
  update gives a score that is at most \<open>1\<close> and at least the prior score, a failure update
  gives a score that is at least \<open>0\<close> and at most the prior score. Either result is again a
  float in \<open>[0, 1]\<close>, so the score stays in the interval across every update.
\<close>

theorem update_effectiveness_bounds:
  assumes "is_double (effectiveness_score item)"
    and "0 \<le> effectiveness_score item" and "effectiveness_score item \<le> 1"
    and "0 \<le> i"
  shows "effectiveness_score item \<le> effectiveness_score (fst (update_effectiveness clk True i item t))
    \<and> effectiveness_score (fst (update_effectiveness clk True i item t)) \<le> 1
    \<and> is_double (effectiveness_score (fst (update_effectiveness clk True i item t)))
    \<and> 0 \<le> effectiveness_score (fst (update_effectiveness clk False i item t))
    \<and> effectiveness_score (fst (update_effectiveness clk False i item t)) \<le> effectiveness_score item
    \<and> is_double (effectiveness_score (fst (update_effectiveness clk False i item t)))"
proof -
  let ?s = "effectiveness_score item"
  let ?up = "fl64 (?s + fl64 (i * fl64 (1 / 10)))"
  let ?down = "fl64 (?s - fl64 (i * fl64 (1 / 20)))"
  have "0 \<le> i * fl64 (1 / 10)"
    using assms(4) by (simp add: fl64_tenth)
  then have reward: "0 \<le> fl64 (i * fl64 (1 / 10))" by (rule fl64_nonneg)
  have "0 \<le> i * fl64 (1 / 20)"
    using assms(4) by (simp add: fl64_twentieth)
  then have penalty: "0 \<le> fl64 (i * fl64 (1 / 20))" by (rule fl64_nonneg)
  have up: "?s \<le> ?up"
    using assms(1) reward by (intro fl64_fixes_double_le) simp_all
  have down: "?down \<le> ?s"
    using assms(1) penalty by (intro fl64_fixes_double_ge) simp_all
  have "0 \<le> ?up" using up assms(2) by simp
  then have d1: "is_double (min 1 ?up)" by (rule is_double_min_one)
  have "?down \<le> 1" using down assms(3) by simp
  then have d2: "is_double (max 0 ?down)" by (rule is_double_max_zero)
  have s1: "effectiveness_score (fst (update_effectiveness clk True i item t)) = min 1 ?up"
    by (simp only: score_after_success py_min_eq)
  have s2: "effectiveness_score (fst (update_effectiveness clk False i item t)) = max 0 ?down"
    by (simp only: score_after_failure py_max_eq)
  show ?thesis
    unfolding s1 s2 using up down d1 d2 assms(2,3) by simp
qed

text \<open>The theorem at the default item (score \<open>0.5\<close>) and impact \<open>1.0\<close>.\<close>

theorem update_effectiveness_bounds_witness:
  "is_double (effectiveness_score sample_item) \<and> 0 \<le> effectiveness_score sample_item
   \<and> effectiveness_score sample_item \<le> 1 \<and> (0::rat) \<le> 1
   \<and> effectiveness_score sample_item
        \<le> effectiveness_score (fst (update_effectiveness sample_clock True 1 sample_item 0))
   \<and> effectiveness_score (fst (update_effectiveness sample_clock True 1 sample_item 0)) \<le> 1
   \<and> 0 \<le> effectiveness_score (fst (update_effectiveness sample_clock False 1 sample_item 0))
   \<and> effectiveness_score (fst (update_effectiveness sample_clock False 1 sample_item 0))
        \<le> effectiveness_score sample_item"
proof -
  have a: "is_double (effectiveness_score sample_item)"
    by (simp only: sample_item_score is_double_half)
  have b: "0 \<le> effectiveness_score sample_item" and c: "effectiveness_score sample_item \<le> 1"
    by (simp_all add: sample_item_score)
  have d: "(0::rat) \<le> 1" by simp
  from update_effectiveness_bounds [OF a b c d, of sample_clock 0] a b c d
  show ?thesis by (simp only: simp_thms)
qed

text \<open>
  C7, as the code has it. From the score \<open>0.5\<close>, a success update with impact \<open>1.0\<close> gives
  exactly the float \<open>0.6\<close>. A failure update with impact \<open>1.0\<close> after it gives
  \<open>4953959590107545 / 2\<^sup>5\<^sup>3\<close>, which Python prints as \<^verbatim>\<open>0.5499999999999999\<close>: the float just
  below the float \<open>0.55\<close>, less than \<open>2\<^sup>-\<^sup>5\<^sup>3\<close> away from eleven twentieths.
\<close>

theorem two_updates_from_half:
  assumes "effectiveness_score item = 1 / 2"
    and "update_effectiveness clk True 1 item t = (item1, t1)"
    and "update_effectiveness clk False 1 item1 t1 = (item2, t2)"
  shows "effectiveness_score item1 = fl64 (3 / 5)
    \<and> effectiveness_score item2 = 4953959590107545 / 2 ^ 53
    \<and> effectiveness_score item2 < fl64 (11 / 20)
    \<and> \<bar>effectiveness_score item2 - 11 / 20\<bar> < 1 / 2 ^ 53"
proof -
  have i1: "item1 = fst (update_effectiveness clk True 1 item t)"
    by (simp only: assms(2) fst_conv)
  have i2: "item2 = fst (update_effectiveness clk False 1 item1 t1)"
    by (simp only: assms(3) fst_conv)
  have s1: "effectiveness_score item1 = fl64 (3 / 5)"
    by (simp only: i1 score_after_success assms(1) success_from_half)
  have s2: "effectiveness_score item2 = 4953959590107545 / 2 ^ 53"
    by (simp only: i2 score_after_failure s1 failure_from_three_fifths)
  from s1 s2 below_eleven_twentieths show ?thesis
    by (simp only: simp_thms)
qed

text \<open>The two updates on the default item.\<close>

theorem two_updates_from_half_witness:
  "effectiveness_score sample_item = 1 / 2
   \<and> effectiveness_score (fst (update_effectiveness sample_clock True 1 sample_item 0)) = fl64 (3 / 5)
   \<and> effectiveness_score (fst (update_effectiveness sample_clock False 1
        (fst (update_effectiveness sample_clock True 1 sample_item 0)) 1)) = 4953959590107545 / 2 ^ 53"
proof -
  have a: "update_effectiveness sample_clock True 1 sample_item 0 =
      (fst (update_effectiveness sample_clock True 1 sample_item 0), 1)"
    by (simp add: update_effectiveness_def)
  have b: "update_effectiveness sample_clock False 1
        (fst (update_effectiveness sample_clock True 1 sample_item 0)) 1 =
      (fst (update_effectiveness sample_clock False 1
        (fst (update_effectiveness sample_clock True 1 sample_item 0)) 1), 2)"
    by (simp add: update_effectiveness_def)
  from two_updates_from_half [OF sample_item_score a b] sample_item_score
  show ?thesis by (simp only: simp_thms)
qed

text \<open>C7 as stated fails: the score after the second update is neither the float \<open>0.55\<close>
  nor the rational number eleven twentieths.\<close>

theorem second_update_is_not_055:
  "effectiveness_score (fst (update_effectiveness sample_clock False 1
        (fst (update_effectiveness sample_clock True 1 sample_item 0)) 1)) \<noteq> fl64 (11 / 20)
   \<and> effectiveness_score (fst (update_effectiveness sample_clock False 1
        (fst (update_effectiveness sample_clock True 1 sample_item 0)) 1)) \<noteq> 11 / 20"
proof -
  have "effectiveness_score (fst (update_effectiveness sample_clock False 1
        (fst (update_effectiveness sample_clock True 1 sample_item 0)) 1))
        = 4953959590107545 / 2 ^ 53"
    by (simp only: score_after_failure score_after_success sample_item_score
        success_from_half failure_from_three_fifths)
  with below_eleven_twentieths show ?thesis
    by (simp only: simp_thms less_imp_neq not_False_eq_True)
qed

text \<open>
  C9, as the code has it. Every update sets \<open>updated_at\<close> to the clock reading of the call,
  whether the score changes or not, and reads the clock once; the fields other than the
  score and \<open>updated_at\<close> keep their values.
\<close>

theorem update_effectiveness_frame:
  "updated_at (fst (update_effectiveness clk success i item t)) = clk t
   \<and> snd (update_effectiveness clk success i item t) = Suc t
   \<and> item_id (fst (update_effectiveness clk success i item t)) = item_id item
   \<and> content (fst (update_effectiveness clk success i item t)) = content item
   \<and> category (fst (update_effectiveness clk success i item t)) = category item
   \<and> priority (fst (update_effectiveness clk success i item t)) = priority item
   \<and> created_at (fst (update_effectiveness clk success i item t)) = created_at item
   \<and> usage_count (fst (update_effectiveness clk success i item t)) = usage_count item
   \<and> metadata (fst (update_effectiveness clk success i item t)) = metadata item"
  by (simp add: update_effectiveness_def Let_def)

text \<open>C9 as stated fails: a success update of an item whose score is already \<open>1.0\<close> leaves
  the score as it is and still changes \<open>updated_at\<close>.\<close>

theorem updated_at_changes_without_score_change:
  "effectiveness_score (fst (update_effectiveness sample_clock True 1 saturated_item 0))
     = effectiveness_score saturated_item
   \<and> updated_at (fst (update_effectiveness sample_clock True 1 saturated_item 0))
     \<noteq> updated_at saturated_item"
proof -
  have "effectiveness_score saturated_item = 1"
    by (simp add: saturated_item_def)
  then have "effectiveness_score (fst (update_effectiveness sample_clock True 1 saturated_item 0))
     = effectiveness_score saturated_item"
    by (simp only: score_after_success saturated_success)
  moreover have "updated_at (fst (update_effectiveness sample_clock True 1 saturated_item 0))
     \<noteq> updated_at saturated_item"
    by (simp add: saturated_item_def sample_item_def sample_clock_def update_effectiveness_def)
  ultimately show ?thesis by (simp only: simp_thms)
qed

section \<open>Refinement\<close>

lemma context_items_framework_of: "context_items (framework_of items) = items"
  by (simp add: framework_of_def)


lemma length_py_sorted_reverse: "length (py_sorted_reverse k xs) = length xs"
  by (simp add: py_sorted_reverse_def)




lemma context_items_refine_context:
  "context_items (refine_context ace) = take (keep_count ace) (sorted_context ace)"
  by (simp add: refine_context_def)

lemma length_sorted_context: "length (sorted_context ace) = length (context_items ace)"
  by (simp add: sorted_context_def length_py_sorted_reverse)


lemma keep_count_eq: "keep_count ace = max 10 (length (context_items ace) div 2)"
  by (simp add: keep_count_def length_sorted_context)













section \<open>The curator\<close>

lemma length_items_from: "length (items_from pre cat p clk n i t xs) = length xs"
  by (induction xs arbitrary: n i t) simp_all


lemma add_insights_eq:
  "add_insights clk i xs ctx t =
     (ctx @ items_from ''insight_'' ''insight'' (fl64 (4 / 5)) clk (length ctx) i t xs,
      t + 2 * length xs)"
proof (induction xs arbitrary: i ctx t)
  case Nil
  show ?case by simp
next
  case (Cons x xs)
  show ?case
    by (simp add: Cons.IH new_ContextItem_def)
qed

lemma add_strategies_eq:
  "add_strategies clk i xs ctx t =
     (ctx @ items_from ''strategy_'' ''strategy'' (fl64 (7 / 10)) clk (length ctx) i t xs,
      t + 2 * length xs)"
proof (induction xs arbitrary: i ctx t)
  case Nil
  show ?case by simp
next
  case (Cons x xs)
  show ?case
    by (simp add: Cons.IH new_ContextItem_def)
qed

lemma snd_new_insights_list: "snd (new_insights_list clk n i xs t) = t + 2 * length xs"
  by (induction xs arbitrary: i t) (simp_all add: new_ContextItem_def case_prod_beta)

lemma update_all_failed_each:
  "list_all2 (\<lambda>x y. \<exists>u. y = fst (update_effectiveness clk False (1 / 2) x u))
     xs (fst (update_all_failed clk xs t))"
proof (induction xs arbitrary: t)
  case Nil
  show ?case by simp
next
  case (Cons x xs)
  have "\<exists>u. fst (update_effectiveness clk False (1 / 2) x t)
      = fst (update_effectiveness clk False (1 / 2) x u)"
    by blast
  moreover have "snd (update_effectiveness clk False (1 / 2) x t) = Suc t"
    by (simp add: update_effectiveness_def)
  ultimately show ?case
    using Cons.IH [of "Suc t"] by (simp add: case_prod_beta)
qed



lemma curate_eq:
  "curate clk ctx new_insights r t =
    (let grown = ctx @ items_from ''insight_'' ''insight'' (fl64 (4 / 5)) clk (length ctx) 0 t new_insights
            @ items_from ''strategy_'' ''strategy'' (fl64 (7 / 10)) clk
                (length ctx + length new_insights) 0 (t + 2 * length new_insights) (recommendations r);
         t2 = t + 2 * length new_insights + 2 * length (recommendations r)
     in if failures r \<noteq> [] then update_all_failed clk grown t2 else (grown, t2))"
  by (simp add: curate_def add_insights_eq add_strategies_eq length_items_from Let_def)






section \<open>Curation by the framework\<close>

lemma curate_context_eq:
  assumes "cur clk (context_items ace) (insights r) r (t + 2 * length (insights r)) = (curated, t1)"
  shows "curate_context cur clk r ace t =
     ((if 20 < length curated
       then context_items (refine_context (ace\<lparr>context_items := curated\<rparr>)) else curated,
       if 20 < length curated
       then refine_context (ace\<lparr>context_items := curated\<rparr>) else ace\<lparr>context_items := curated\<rparr>),
      t1)"
proof -
  obtain unused t0 where n: "new_insights_list clk (length (context_items ace)) 0 (insights r) t
      = (unused, t0)"
    by force
  have "t0 = t + 2 * length (insights r)"
    using snd_new_insights_list [of clk "length (context_items ace)" 0 "insights r" t]
    by (simp add: n)
  then show ?thesis
    using assms by (simp add: curate_context_def n Let_def)
qed

text \<open>
  C3. \<open>curate_context\<close> hands the current context and the insights of the reflection to the
  curator, makes the curator's result the context, refines it if and only if it has more
  than 20 items, and returns the context it ends with.
\<close>

theorem curate_context_refines_above_twenty:
  assumes "cur clk (context_items ace) (insights r) r (t + 2 * length (insights r)) = (curated, t1)"
  shows "curate_context cur clk r ace t =
     ((if 20 < length curated
       then context_items (refine_context (ace\<lparr>context_items := curated\<rparr>)) else curated,
       if 20 < length curated
       then refine_context (ace\<lparr>context_items := curated\<rparr>) else ace\<lparr>context_items := curated\<rparr>),
      t1)"
  using assms by (rule curate_context_eq)

lemma length_curate:
  "length (fst (curate clk ctx new_insights r t))
     = length ctx + length new_insights + length (recommendations r)"
proof -
  have "length (fst (update_all_failed clk xs u)) = length xs" for xs u
    using update_all_failed_each [of clk xs u] by (rule list_all2_lengthD [symmetric])
  then show ?thesis
    by (simp add: curate_eq Let_def length_items_from)
qed

text \<open>The theorem with the DeepSeek curator on a context of one item: three items, no
  refinement.\<close>

theorem curate_context_refines_above_twenty_witness:
  "curate sample_clock (context_items (framework_of [sample_item])) (insights quiet_reflection)
      quiet_reflection (0 + 2 * length (insights quiet_reflection))
     = (fst (curate sample_clock [sample_item] (insights quiet_reflection) quiet_reflection 2),
        snd (curate sample_clock [sample_item] (insights quiet_reflection) quiet_reflection 2))
   \<and> fst (fst (curate_context curate sample_clock quiet_reflection (framework_of [sample_item]) 0))
     = fst (curate sample_clock [sample_item] (insights quiet_reflection) quiet_reflection 2)
   \<and> length (fst (fst (curate_context curate sample_clock quiet_reflection
        (framework_of [sample_item]) 0))) = 3"
proof -
  have len: "length (insights quiet_reflection) = 1" "length (recommendations quiet_reflection) = 1"
    by (simp_all add: failing_reflection_def quiet_reflection_def)
  have a: "curate sample_clock (context_items (framework_of [sample_item]))
      (insights quiet_reflection) quiet_reflection (0 + 2 * length (insights quiet_reflection))
     = (fst (curate sample_clock [sample_item] (insights quiet_reflection) quiet_reflection 2),
        snd (curate sample_clock [sample_item] (insights quiet_reflection) quiet_reflection 2))"
    by (simp add: context_items_framework_of len numeral_2_eq_2)
  have l: "length (fst (curate sample_clock [sample_item] (insights quiet_reflection)
      quiet_reflection 2)) = 3"
    by (simp add: length_curate len)
  from curate_context_refines_above_twenty [where cur = curate and clk = sample_clock
      and ace = "framework_of [sample_item]" and r = quiet_reflection and t = 0, OF a]
  have "fst (fst (curate_context curate sample_clock quiet_reflection (framework_of [sample_item]) 0))
     = fst (curate sample_clock [sample_item] (insights quiet_reflection) quiet_reflection 2)"
    by (simp add: l)
  with a l show ?thesis by (simp only: simp_thms)
qed

section \<open>Ids across curation and refinement\<close>

lemma sorted_map_const: "\<forall>a \<in> set A. f a = c \<Longrightarrow> sorted (map f A)"
  by (induction A) auto

lemma context_items_new_ACEFramework: "context_items new_ACEFramework = []"
  by (simp add: new_ACEFramework_def)

lemma py_sorted_reverse_two_classes:
  assumes lo: "\<forall>b \<in> set B. k b = lo" and hi: "\<forall>a \<in> set A. k a = hi" and "lo < hi"
  shows "py_sorted_reverse k (B @ A) = A @ B"
  unfolding py_sorted_reverse_def
proof (rule properties_for_sort_key)
  show "mset (A @ B) = mset (B @ A)" by simp
  have "sorted (map (\<lambda>x. - k x) A)" "sorted (map (\<lambda>x. - k x) B)"
    using lo hi by (simp_all add: sorted_map_const [where c = "- hi"] sorted_map_const [where c = "- lo"])
  then show "sorted (map (\<lambda>x. - k x) (A @ B))"
    using assms by (simp add: sorted_append)
  fix x assume "x \<in> set (A @ B)"
  then consider "x \<in> set A" | "x \<in> set B" by auto
  then show "filter (\<lambda>y. - k x = - k y) (A @ B) = filter (\<lambda>y. - k x = - k y) (B @ A)"
  proof cases
    case 1
    then have "k x = hi" using hi by simp
    then have "filter (\<lambda>y. - k x = - k y) A = A" "filter (\<lambda>y. - k x = - k y) B = []"
      using lo hi \<open>lo < hi\<close> by (auto simp add: filter_id_conv filter_empty_conv)
    then show ?thesis by simp
  next
    case 2
    then have "k x = lo" using lo by simp
    then have "filter (\<lambda>y. - k x = - k y) B = B" "filter (\<lambda>y. - k x = - k y) A = []"
      using lo hi \<open>lo < hi\<close> by (auto simp add: filter_id_conv filter_empty_conv)
    then show ?thesis by simp
  qed
qed

lemma items_from_key:
  assumes "x \<in> set (items_from pre cat p clk n i t xs)"
  shows "refinement_key x = fl64 (1 / 2 * p)"
  using assms
  by (induction xs arbitrary: n i t) (auto simp add: refinement_key_def new_ContextItem_def)

lemma strategy_key_below_insight_key: "fl64 (1 / 2 * fl64 (7 / 10)) < fl64 (1 / 2 * fl64 (4 / 5))"
  by code_simp

lemma context_after_curate_context:
  "context_items (snd (fst (curate_context curate clk r ace t))) =
     (let curated = fst (curate clk (context_items ace) (insights r) r (t + 2 * length (insights r)))
      in if 20 < length curated
         then take (max 10 (length curated div 2)) (py_sorted_reverse refinement_key curated)
         else curated)"
proof -
  have "curate clk (context_items ace) (insights r) r (t + 2 * length (insights r)) =
      (fst (curate clk (context_items ace) (insights r) r (t + 2 * length (insights r))),
       snd (curate clk (context_items ace) (insights r) r (t + 2 * length (insights r))))"
    by simp
  from curate_context_eq [where cur = curate, OF this] show ?thesis
    by (simp add: Let_def context_items_refine_context keep_count_eq sorted_context_def)
qed

lemma curate_without_failures:
  assumes "failures r = []"
  shows "fst (curate clk ctx new_insights r t) =
     ctx @ items_from ''insight_'' ''insight'' (fl64 (4 / 5)) clk (length ctx) 0 t new_insights
         @ items_from ''strategy_'' ''strategy'' (fl64 (7 / 10)) clk
             (length ctx + length new_insights) 0 (t + 2 * length new_insights) (recommendations r)"
  using assms by (simp add: curate_eq Let_def)

lemma ids_collide_after_refinement:
  assumes r1: "insights r1 = []" "failures r1 = []" "length (recommendations r1) = 10"
    and r2: "length (insights r2) = 11" "failures r2 = []" "recommendations r2 = []"
    and r3: "insights r3 = [z]" "failures r3 = []" "recommendations r3 = []"
  shows "\<not> distinct (map item_id
     (context_items (fst (curate_all clk [r1, r2, r3] new_ACEFramework t))))"
proof -
  obtain ace1 t1 where s1: "curate_context curate clk r1 new_ACEFramework t = ((context_items ace1, ace1), t1)"
    by (simp add: curate_context_def Let_def case_prod_beta)
  obtain ace2 t2 where s2: "curate_context curate clk r2 ace1 t1 = ((context_items ace2, ace2), t2)"
    by (simp add: curate_context_def Let_def case_prod_beta)
  obtain ace3 t3 where s3: "curate_context curate clk r3 ace2 t2 = ((context_items ace3, ace3), t3)"
    by (simp add: curate_context_def Let_def case_prod_beta)
  have run: "fst (curate_all clk [r1, r2, r3] new_ACEFramework t) = ace3"
    by (simp add: s1 s2 s3)
  let ?S = "items_from ''strategy_'' ''strategy'' (fl64 (7 / 10)) clk 0 0 t (recommendations r1)"
  have c1: "context_items ace1 = ?S"
    using context_after_curate_context [of clk r1 new_ACEFramework t]
    by (simp add: s1 r1 curate_without_failures context_items_new_ACEFramework length_items_from
        Let_def)
  let ?I = "items_from ''insight_'' ''insight'' (fl64 (4 / 5)) clk 10 0 (t1 + 22) (insights r2)"
  have sorted: "py_sorted_reverse refinement_key (?S @ ?I) = ?I @ ?S"
    by (rule py_sorted_reverse_two_classes [OF _ _ strategy_key_below_insight_key])
      (simp_all add: items_from_key)
  have c2: "context_items ace2 = take 10 ?I"
    using context_after_curate_context [of clk r2 ace1 t1]
    by (simp add: s2 r1 r2 c1 curate_without_failures length_items_from Let_def sorted)
  obtain x xs where ins: "insights r2 = x # xs"
    using r2(1) by (cases "insights r2") simp_all
  let ?id = "''insight_'' @ str_nat 10 @ ''_'' @ str_nat 0"
  obtain first others where kept: "take 10 ?I = first # others" and first: "item_id first = ?id"
    by (simp add: ins new_ContextItem_def numeral_eq_Suc)
  have len2: "length (take 10 ?I) = 10"
    by (simp add: length_items_from r2)
  let ?new = "fst (new_ContextItem clk ?id z ''insight'' (fl64 (4 / 5)) (t2 + 2))"
  have cur3: "fst (curate clk (context_items ace2) (insights r3) r3 (t2 + 2 * length (insights r3)))
      = take 10 ?I @ [?new]"
    by (simp add: c2 r2 r3 curate_without_failures length_items_from)
  have "context_items ace3 =
     (let curated = fst (curate clk (context_items ace2) (insights r3) r3 (t2 + 2 * length (insights r3)))
      in if 20 < length curated
         then take (max 10 (length curated div 2)) (py_sorted_reverse refinement_key curated)
         else curated)"
    using context_after_curate_context [of clk r3 ace2 t2] by (simp only: s3 fst_conv snd_conv)
  then have c3: "context_items ace3 = take 10 ?I @ [?new]"
    unfolding cur3 Let_def by (simp add: len2)
  have "map item_id (context_items ace3) = ?id # map item_id others @ [?id]"
    by (simp add: c3 kept first new_ContextItem_def)
  then show ?thesis
    unfolding run by simp
qed

text \<open>
  C8. The ids of the items that curation appends are made of the length of the context and
  the index in the call, and refinement shortens the context, so an id can come twice. On
  a new framework, a curation with ten recommendations gives \<open>strategy_0_0\<close> to
  \<open>strategy_9_9\<close>; one with eleven insights gives \<open>insight_10_0\<close> to \<open>insight_20_10\<close> and, the
  context having 21 items, refinement keeps \<open>insight_10_0\<close> to \<open>insight_19_9\<close>; a curation
  with one more insight then appends a second \<open>insight_10_0\<close>.
\<close>

theorem curated_ids_collide:
  "\<not> distinct (map item_id (context_items (fst (curate_all sample_clock
      [strategies_reflection, insights_reflection, single_reflection] new_ACEFramework 0))))"
  by (rule ids_collide_after_refinement)
    (simp_all add: strategies_reflection_def insights_reflection_def single_reflection_def)

end
